theory Spec2Isabelle
  imports Main
begin

section \<open>The Google Charts loader service (app/services/google-charts.js)\<close>

text \<open>
  The service owns one tracked field, \<open>loaded\<close>, and one ember-concurrency task,
  \<open>loadTask\<close>, declared with the \<open>drop\<close> modifier. The task body is a generator with
  two suspension points (\<open>yield loadJsApi()\<close> and \<open>yield loadCoreChart(api)\<close>); the
  helper functions are \<open>async\<close> functions that wrap callback style browser and library
  interfaces in promises.

  The page runs on a single threaded event loop, so the model is a deterministic step
  function over the events the event loop can deliver to the component. Every effect the
  code has on the page or on the external library is appended to a log, in program order.

  What the model takes from outside the file:
  \<^item> ember-concurrency runs the generator: \<open>perform()\<close> starts the body, a \<open>yield\<close> of a
    promise suspends it until the promise is settled, a rejection that the body does not
    catch ends the execution with that error, and \<open>await this.loadTask.perform()\<close> in
    \<open>load()\<close> settles with the execution;
  \<^item> \<open>window.google\<close> is written only by the script the component injects;
  \<^item> a defined \<open>window.google\<close> has a \<open>load\<close> method, which may or may not call the
    callback later.
  What a dropped caller of \<open>load()\<close> sees of its own promise is not part of the model.
\<close>

subsection \<open>Data\<close>

text \<open>The global \<open>window.google\<close> is an opaque handle of the external library.\<close>

type_synonym api = nat

text \<open>
  The two ways a promise awaited by the task can be rejected: the \<open>onerror\<close> handler of
  the injected script element, and the \<open>TypeError\<close> JavaScript raises for
  \<open>api.load\<close> when \<open>api\<close> is \<open>undefined\<close>.
\<close>

datatype error = ScriptLoadFailure | TypeError

datatype 'a promise = Pending | Fulfilled 'a | Rejected error

text \<open>
  The single execution slot of \<open>loadTask\<close>: no execution, or the execution suspended at
  one of its two \<open>yield\<close>s together with the promise it yielded.
\<close>

datatype task_state =
    Idle
  | YieldJsApi "api option promise"
  | YieldCoreChart "unit promise"

text \<open>A DOM event object as \<open>document.createEvent\<close> and \<open>initEvent\<close> build it.\<close>

record dom_event =
  ev_interface :: string
  ev_type :: string
  bubbles :: bool
  cancelable :: bool

text \<open>
  The effects, in the order of the constructors: an execution of the task body starts;
  \<open>document.body.appendChild(script)\<close> with the \<open>src\<close> of the script;
  \<open>api.load(name, version, {packages, callback})\<close>; the assignment to \<open>this.loaded\<close>;
  \<open>document.dispatchEvent(event)\<close>; the execution ends and the promise of \<open>load()\<close>
  is fulfilled (\<open>None\<close>) or rejected with an error.
\<close>

datatype effect =
    Performed
  | AppendScript string
  | ApiLoad api string string "string list"
  | SetLoaded bool
  | DispatchEvent dom_event
  | Settled "error option"

record state =
  loaded :: bool
  loadTask :: task_state
  window_google :: "api option"
  effects :: "effect list"

text \<open>
  What the event loop can deliver: a call of \<open>load()\<close>; the \<open>onload\<close> of the pending
  script element, after the script has run and left \<open>window.google\<close> as given; its
  \<open>onerror\<close>; the completion callback handed to \<open>api.load\<close>; and the job that resumes
  the task once the promise it yielded is settled.
\<close>

datatype event = Load | ScriptLoad "api option" | ScriptError | Callback | Resume

subsection \<open>The functions of the module\<close>

definition document_createEvent :: "string \<Rightarrow> dom_event" where
  "document_createEvent i =
     \<lparr>ev_interface = i, ev_type = [], bubbles = False, cancelable = False\<rparr>"

definition initEvent :: "dom_event \<Rightarrow> string \<Rightarrow> bool \<Rightarrow> bool \<Rightarrow> dom_event" where
  "initEvent ev name b c = ev\<lparr>ev_type := name, bubbles := b, cancelable := c\<rparr>"

definition createEvent :: "string \<Rightarrow> dom_event" where
  "createEvent name = initEvent (document_createEvent ''Event'') name True True"

definition emit :: "effect \<Rightarrow> state \<Rightarrow> state" where
  "emit x s = s\<lparr>effects := effects s @ [x]\<rparr>"

text \<open>
  \<open>loadScript\<close> creates the element, sets \<open>src\<close> and both handlers, appends it to
  \<open>document.body\<close> and awaits: the promise is pending when the function suspends.
\<close>

definition loadScript :: "string \<Rightarrow> state \<Rightarrow> state \<times> unit promise" where
  "loadScript src s = (emit (AppendScript src) s, Pending)"

definition jsapi_url :: string where
  "jsapi_url = ''https://www.google.com/jsapi''"

text \<open>
  \<open>loadJsApi\<close> up to its first suspension: with the global present it returns it at
  once; otherwise it awaits \<open>loadScript\<close> and reads the global when that is fulfilled
  (see \<open>step\<close> at \<open>ScriptLoad\<close>).
\<close>

definition loadJsApi :: "state \<Rightarrow> state \<times> api option promise" where
  "loadJsApi s =
     (if window_google s = None
      then (case loadScript jsapi_url s of
              (s', Pending) \<Rightarrow> (s', Pending)
            | (s', Fulfilled _) \<Rightarrow> (s', Fulfilled (window_google s'))
            | (s', Rejected e) \<Rightarrow> (s', Rejected e))
      else (s, Fulfilled (window_google s)))"

text \<open>
  \<open>loadCoreChart\<close>: the promise executor calls \<open>api.load\<close>; on \<open>undefined\<close> that
  raises inside the executor, which rejects the promise.
\<close>

definition loadCoreChart :: "api option \<Rightarrow> state \<Rightarrow> state \<times> unit promise" where
  "loadCoreChart a s =
     (case a of
        None \<Rightarrow> (s, Rejected TypeError)
      | Some g \<Rightarrow> (emit (ApiLoad g ''visualization'' ''1.0'' [''corechart'']) s, Pending))"

text \<open>The execution ends: the slot is free and the promise of \<open>load()\<close> settles.\<close>

definition finish :: "error option \<Rightarrow> state \<Rightarrow> state" where
  "finish r s = emit (Settled r) (s\<lparr>loadTask := Idle\<rparr>)"

text \<open>
  Modelled from the spec: the \<open>drop\<close> modifier of ember-concurrency, whose code is not
  part of the source file. In the spec's words, if \<open>load()\<close> is called while a prior
  invocation is in flight, the new call is dropped (a no-op) rather than queued or
  restarted. Otherwise \<open>perform()\<close> runs the task body of the source to its first
  \<open>yield\<close>, which is \<open>yield loadJsApi()\<close>.
\<close>

definition perform :: "state \<Rightarrow> state" where
  "perform s =
     (if loadTask s \<noteq> Idle then s
      else (case loadJsApi (emit Performed s) of
              (s', p) \<Rightarrow> s'\<lparr>loadTask := YieldJsApi p\<rparr>))"

definition load :: "state \<Rightarrow> state" where
  "load s = perform s"

text \<open>
  The task body after a \<open>yield\<close>: a rejected promise is thrown into the generator, which
  has no handler; a fulfilled one resumes it with the value.
\<close>

definition resume :: "state \<Rightarrow> state" where
  "resume s =
     (case loadTask s of
        Idle \<Rightarrow> s
      | YieldJsApi Pending \<Rightarrow> s
      | YieldJsApi (Rejected e) \<Rightarrow> finish (Some e) s
      | YieldJsApi (Fulfilled a) \<Rightarrow>
          (case loadCoreChart a s of (s', p) \<Rightarrow> s'\<lparr>loadTask := YieldCoreChart p\<rparr>)
      | YieldCoreChart Pending \<Rightarrow> s
      | YieldCoreChart (Rejected e) \<Rightarrow> finish (Some e) s
      | YieldCoreChart (Fulfilled _) \<Rightarrow>
          finish None
            (emit (DispatchEvent (createEvent ''googleChartsLoaded''))
               (emit (SetLoaded True) (s\<lparr>loaded := True\<rparr>))))"

text \<open>
  An event that no pending handler of the component listens for leaves the state as
  it is.
\<close>

fun step :: "state \<Rightarrow> event \<Rightarrow> state" where
  "step s Load = load s"
| "step s (ScriptLoad g) =
     (if loadTask s = YieldJsApi Pending
      then s\<lparr>window_google := g, loadTask := YieldJsApi (Fulfilled g)\<rparr> else s)"
| "step s ScriptError =
     (if loadTask s = YieldJsApi Pending
      then s\<lparr>loadTask := YieldJsApi (Rejected ScriptLoadFailure)\<rparr> else s)"
| "step s Callback =
     (if loadTask s = YieldCoreChart Pending
      then s\<lparr>loadTask := YieldCoreChart (Fulfilled ())\<rparr> else s)"
| "step s Resume = resume s"

fun run :: "state \<Rightarrow> event list \<Rightarrow> state" where
  "run s [] = s"
| "run s (e # es) = run (step s e) es"

definition init :: "api option \<Rightarrow> state" where
  "init g = \<lparr>loaded = False, loadTask = Idle, window_google = g, effects = []\<rparr>"

subsection \<open>Observations\<close>

fun scripts_of :: "effect list \<Rightarrow> string list" where
  "scripts_of [] = []"
| "scripts_of (AppendScript src # xs) = src # scripts_of xs"
| "scripts_of (_ # xs) = scripts_of xs"

fun events_of :: "effect list \<Rightarrow> dom_event list" where
  "events_of [] = []"
| "events_of (DispatchEvent ev # xs) = ev # events_of xs"
| "events_of (_ # xs) = events_of xs"

fun api_loads_of :: "effect list \<Rightarrow> api list" where
  "api_loads_of [] = []"
| "api_loads_of (ApiLoad g _ _ _ # xs) = g # api_loads_of xs"
| "api_loads_of (_ # xs) = api_loads_of xs"

definition scripts :: "state \<Rightarrow> string list" where
  "scripts s = scripts_of (effects s)"

definition dispatched :: "state \<Rightarrow> dom_event list" where
  "dispatched s = events_of (effects s)"

definition api_loads :: "state \<Rightarrow> api list" where
  "api_loads s = api_loads_of (effects s)"

text \<open>Executions of the task body that have started and not yet ended.\<close>

definition executing :: "state \<Rightarrow> int" where
  "executing s =
     int (length (filter (\<lambda>x. x = Performed) (effects s)))
     - int (length (filter (\<lambda>x. case x of Settled _ \<Rightarrow> True | _ \<Rightarrow> False) (effects s)))"


subsection \<open>Invariants\<close>

text \<open>The slot and the log agree on whether an execution is in flight.\<close>

definition slot_inv :: "state \<Rightarrow> bool" where
  "slot_inv s = (executing s = (if loadTask s = Idle then 0 else 1))"

text \<open>
  At most one script element has been appended, and if there is one then either the
  global is there or the execution still waits for that element.
\<close>

definition inject_inv :: "state \<Rightarrow> bool" where
  "inject_inv s =
     (length (scripts s) \<le> 1 \<and>
      (scripts s \<noteq> [] \<longrightarrow> window_google s \<noteq> None \<or> loadTask s = YieldJsApi Pending))"

section \<open>Basic facts\<close>

lemmas body_defs =
  load_def perform_def loadJsApi_def loadScript_def loadCoreChart_def resume_def
  finish_def emit_def

lemma scripts_of_append: "scripts_of (xs @ ys) = scripts_of xs @ scripts_of ys"
  by (induction xs rule: scripts_of.induct) simp_all

lemma events_of_append: "events_of (xs @ ys) = events_of xs @ events_of ys"
  by (induction xs rule: events_of.induct) simp_all


lemma run_append: "run s (xs @ ys) = run (run s xs) ys"
  by (induction xs arbitrary: s) simp_all

lemma load_in_flight: "loadTask s \<noteq> Idle \<Longrightarrow> load s = s"
  by (simp add: load_def perform_def)

lemma run_dropped_loads: "loadTask s \<noteq> Idle \<Longrightarrow> run s (replicate n Load) = s"
  by (induction n) (simp_all add: load_in_flight)

lemma idle_without_load: "loadTask s = Idle \<Longrightarrow> Load \<notin> set evs \<Longrightarrow> run s evs = s"
proof (induction evs)
  case Nil
  then show ?case by simp
next
  case (Cons e es)
  then have "step s e = s" by (cases e) (simp_all add: resume_def)
  with Cons show ?case by simp
qed

lemma dropped_then_resume:
  "loadTask t \<noteq> Idle \<Longrightarrow> run t (replicate n Load @ [Resume]) = resume t"
  by (simp add: run_append run_dropped_loads)

subsection \<open>What one step does to the scripts, the global and a pending script\<close>

lemma scripts_step:
  "scripts (step s e) =
     (if e = Load \<and> loadTask s = Idle \<and> window_google s = None
      then scripts s @ [jsapi_url] else scripts s)"
proof (cases e)
  case Load
  then show ?thesis
    by (simp add: body_defs scripts_def scripts_of_append)
next
  case Resume
  then show ?thesis
    by (simp add: body_defs scripts_def scripts_of_append
             split: task_state.splits promise.splits option.splits)
qed (simp_all add: scripts_def)

lemma window_google_step:
  "window_google (step s e) =
     (case e of
        ScriptLoad g \<Rightarrow> if loadTask s = YieldJsApi Pending then g else window_google s
      | _ \<Rightarrow> window_google s)"
proof (cases e)
  case Load
  then show ?thesis by (simp add: body_defs)
next
  case Resume
  then show ?thesis
    by (simp add: body_defs split: task_state.splits promise.splits option.splits)
qed simp_all

lemma pending_step:
  "loadTask (step s e) = YieldJsApi Pending \<longleftrightarrow>
     (loadTask s = Idle \<and> e = Load \<and> window_google s = None) \<or>
     (loadTask s = YieldJsApi Pending \<and> (e = Load \<or> e = Callback \<or> e = Resume))"
proof (cases e)
  case Load
  then show ?thesis by (auto simp: body_defs)
next
  case Resume
  then show ?thesis
    by (auto simp: body_defs split: task_state.splits promise.splits option.splits)
qed auto

subsection \<open>An execution whose script fails\<close>

lemma failed_run:
  assumes "loadTask s = Idle" and "window_google s = None"
  shows "run s (Load # replicate m Load @ ScriptError # replicate n Load @ [Resume]) =
         s\<lparr>effects := effects s @
              [Performed, AppendScript jsapi_url, Settled (Some ScriptLoadFailure)]\<rparr>"
proof -
  let ?t = "load s"
  let ?u = "?t\<lparr>loadTask := YieldJsApi (Rejected ScriptLoadFailure)\<rparr>"
  from assms have t: "loadTask ?t = YieldJsApi Pending"
    by (simp add: body_defs)
  then have "run ?t (replicate m Load) = ?t"
    by (simp add: run_dropped_loads)
  then have "run s (Load # replicate m Load @ ScriptError # replicate n Load @ [Resume])
        = run (step ?t ScriptError) (replicate n Load @ [Resume])"
    by (simp add: run_append)
  also from t have "step ?t ScriptError = ?u" by simp
  also have "run ?u (replicate n Load @ [Resume]) = resume ?u"
    by (simp add: dropped_then_resume)
  also from assms have "resume ?u = s\<lparr>effects := effects s @
              [Performed, AppendScript jsapi_url, Settled (Some ScriptLoadFailure)]\<rparr>"
    by (simp add: body_defs)
  finally show ?thesis .
qed

subsection \<open>Injection without failures\<close>

lemma inject_inv_init: "inject_inv (init g)"
  by (simp add: inject_inv_def init_def scripts_def)

lemma inject_inv_step:
  assumes "inject_inv s" and "e \<noteq> ScriptError" and "e \<noteq> ScriptLoad None"
  shows "inject_inv (step s e)"
proof (cases e)
  case Load
  with assms(1) show ?thesis
    unfolding inject_inv_def scripts_step window_google_step pending_step
    by auto
next
  case (ScriptLoad a)
  with assms(1,3) show ?thesis
    unfolding inject_inv_def scripts_step window_google_step pending_step
    by auto
next
  case ScriptError
  with assms(2) show ?thesis by simp
next
  case Callback
  with assms(1) show ?thesis
    unfolding inject_inv_def scripts_step window_google_step pending_step
    by auto
next
  case Resume
  with assms(1) show ?thesis
    unfolding inject_inv_def scripts_step window_google_step pending_step
    by auto
qed

lemma inject_inv_run:
  "inject_inv s \<Longrightarrow> ScriptError \<notin> set evs \<Longrightarrow> ScriptLoad None \<notin> set evs
   \<Longrightarrow> inject_inv (run s evs)"
proof (induction evs arbitrary: s)
  case Nil
  then show ?case by simp
next
  case (Cons e es)
  from Cons.prems have "e \<noteq> ScriptError" and "e \<noteq> ScriptLoad None"
    by auto
  with Cons.prems(1) have "inject_inv (step s e)"
    by (rule inject_inv_step)
  moreover from Cons.prems have "ScriptError \<notin> set es" and "ScriptLoad None \<notin> set es"
    by auto
  ultimately have "inject_inv (run (step s e) es)"
    by (rule Cons.IH)
  then show ?case by simp
qed

subsection \<open>The slot and the log agree\<close>

lemma slot_inv_init: "slot_inv (init g)"
  by (simp add: slot_inv_def init_def executing_def)

lemma slot_inv_step: "slot_inv s \<Longrightarrow> slot_inv (step s e)"
  by (cases e)
     (auto simp: slot_inv_def executing_def body_defs
           split: task_state.splits promise.splits option.splits)

lemma slot_inv_run: "slot_inv s \<Longrightarrow> slot_inv (run s evs)"
  by (induction evs arbitrary: s) (simp_all add: slot_inv_step)

subsection \<open>Successful executions\<close>











subsection \<open>The last step, the flag, waiting, and repeated failures\<close>


lemma loaded_step_iff:
  "loaded (step s e) \<longleftrightarrow> loaded s \<or> (e = Resume \<and> loadTask s = YieldCoreChart (Fulfilled ()))"
proof (cases e)
  case Load
  then show ?thesis by (simp add: body_defs)
next
  case Resume
  then show ?thesis
    by (auto simp: body_defs split: task_state.splits promise.splits option.splits)
qed simp_all

lemma loaded_run: "loaded s \<Longrightarrow> loaded (run s evs)"
  by (induction evs arbitrary: s) (simp_all add: loaded_step_iff del: step.simps)


lemma scripts_grow: "\<exists>ys. scripts (run s evs) = scripts s @ ys"
proof (induction evs arbitrary: s)
  case Nil
  then show ?case by simp
next
  case (Cons e es)
  from Cons [of "step s e"] obtain ys where "scripts (run (step s e) es) = scripts (step s e) @ ys"
    by blast
  then show ?case by (simp add: scripts_step del: step.simps)
qed

lemma failed_cycles:
  "loadTask s = Idle \<Longrightarrow> window_google s = None \<Longrightarrow>
   run s (concat (replicate n [Load, ScriptError, Resume])) =
   s\<lparr>effects := effects s @ concat (replicate n
        [Performed, AppendScript jsapi_url, Settled (Some ScriptLoadFailure)])\<rparr>"
proof (induction n arbitrary: s)
  case 0
  then show ?case by simp
next
  case (Suc n)
  let ?s' = "s\<lparr>effects := effects s @
              [Performed, AppendScript jsapi_url, Settled (Some ScriptLoadFailure)]\<rparr>"
  from failed_run [OF Suc.prems, of 0 0]
  have one: "run s [Load, ScriptError, Resume] = ?s'" by simp
  from Suc.prems have "loadTask ?s' = Idle" and "window_google ?s' = None" by simp_all
  from Suc.IH [OF this]
  have rest: "run ?s' (concat (replicate n [Load, ScriptError, Resume])) =
     s\<lparr>effects := effects s @ concat (replicate (Suc n)
        [Performed, AppendScript jsapi_url, Settled (Some ScriptLoadFailure)])\<rparr>"
    by simp
  have "run s (concat (replicate (Suc n) [Load, ScriptError, Resume])) =
        run (run s [Load, ScriptError, Resume]) (concat (replicate n [Load, ScriptError, Resume]))"
    by (simp only: replicate_Suc concat.simps run_append)
  with one rest show ?case by simp
qed

lemma scripts_of_failed_cycles:
  "scripts_of (concat (replicate n
     [Performed, AppendScript u, Settled (Some ScriptLoadFailure)])) = replicate n u"
  by (induction n) simp_all

subsection \<open>The package load step\<close>





section \<open>The claims\<close>

text \<open>
  C1. A call of \<open>load()\<close> made while an earlier execution of the task is in flight is
  dropped: the state is left exactly as it was, so the call is neither queued nor does
  it restart the execution, and whatever happens afterwards happens as if the call had
  not been made. Over every sequence of events from the initial state, the number of
  executions that have started and not ended is never more than one.
\<close>

theorem load_dropped_while_in_flight:
  "(loadTask s \<noteq> Idle \<longrightarrow> step s Load = s \<and> run s (Load # evs) = run s evs)
   \<and> 0 \<le> executing (run (init g) evs') \<and> executing (run (init g) evs') \<le> 1"
  using slot_inv_run [OF slot_inv_init, of g evs']
  by (simp add: load_in_flight slot_inv_def)

theorem load_dropped_while_in_flight_witness:
  "loadTask (step (init None) Load) \<noteq> Idle \<and>
   step (step (init None) Load) Load = step (init None) Load \<and>
   run (step (init None) Load) [Load, ScriptError, Resume] =
     run (step (init None) Load) [ScriptError, Resume] \<and>
   0 \<le> executing (run (init None) [Load, Load, ScriptLoad (Some 7), Resume, Load]) \<and>
   executing (run (init None) [Load, Load, ScriptLoad (Some 7), Resume, Load]) \<le> 1"
proof -
  have h: "loadTask (step (init None) Load) \<noteq> Idle"
    by (simp add: init_def body_defs)
  from load_dropped_while_in_flight [of "step (init None) Load" "[ScriptError, Resume]" None
              "[Load, Load, ScriptLoad (Some 7), Resume, Load]"] h
  show ?thesis by blast
qed



text \<open>
  C3. An execution started on a free slot with the global absent injects the script;
  let the element then fail to load, with any number of further \<open>load()\<close> calls before
  and after the failure. The failure rejects the awaited promise and with it the
  execution and the promise of \<open>load()\<close> (\<open>Settled (Some ScriptLoadFailure)\<close>);
  \<open>loaded\<close> is what it was, no event has been dispatched, the slot is free again so
  that the next \<open>load()\<close> starts a new execution, and without such a call nothing
  further happens: there is no automatic retry.
\<close>

theorem script_failure_releases_guard:
  assumes "loadTask s = Idle" and "window_google s = None"
  shows "let s' = run s (Load # replicate m Load @ ScriptError # replicate n Load @ [Resume])
         in effects s' = effects s @
              [Performed, AppendScript jsapi_url, Settled (Some ScriptLoadFailure)]
          \<and> loaded s' = loaded s
          \<and> dispatched s' = dispatched s
          \<and> loadTask s' = Idle
          \<and> loadTask (step s' Load) = YieldJsApi Pending
          \<and> (\<forall>evs. Load \<notin> set evs \<longrightarrow> run s' evs = s')"
proof -
  let ?s' = "s\<lparr>effects := effects s @
              [Performed, AppendScript jsapi_url, Settled (Some ScriptLoadFailure)]\<rparr>"
  from assms have idle: "loadTask ?s' = Idle" by simp
  have "dispatched ?s' = dispatched s"
    by (simp add: dispatched_def events_of_append)
  moreover from assms have "loadTask (step ?s' Load) = YieldJsApi Pending"
    by (simp add: body_defs)
  moreover from idle have "\<forall>evs. Load \<notin> set evs \<longrightarrow> run ?s' evs = ?s'"
    by (simp add: idle_without_load)
  ultimately show ?thesis
    unfolding failed_run [OF assms] Let_def using idle by simp
qed

theorem script_failure_releases_guard_witness:
  "loadTask (init None) = Idle \<and> window_google (init None) = None \<and>
   (let s' = run (init None) (Load # replicate 2 Load @ ScriptError # replicate 1 Load @ [Resume])
    in effects s' = effects (init None) @
              [Performed, AppendScript jsapi_url, Settled (Some ScriptLoadFailure)]
          \<and> loaded s' = loaded (init None)
          \<and> dispatched s' = dispatched (init None)
          \<and> loadTask s' = Idle
          \<and> loadTask (step s' Load) = YieldJsApi Pending
          \<and> (\<forall>evs. Load \<notin> set evs \<longrightarrow> run s' evs = s'))"
proof -
  have h1: "loadTask (init None) = Idle" and h2: "window_google (init None) = None"
    by (simp_all add: init_def)
  from script_failure_releases_guard [OF h1 h2, of 2 1] h1 h2 show ?thesis by blast
qed

text \<open>
  C4, as claimed: for every call of \<open>load()\<close> made while \<open>window.google\<close> exists, no
  script is injected and the package loader handshake still runs. The second half fails
  for a call that the guard drops. Here the global is there, a first call has called
  \<open>api.load\<close> and waits for the callback, and a second call arrives: it changes
  nothing, and when the first execution has ended \<open>api.load\<close> has been called once for
  the two calls.
\<close>

theorem handshake_for_every_call_counterexample:
  "window_google (run (init (Some 3)) [Load, Resume]) = Some 3 \<and>
   run (run (init (Some 3)) [Load, Resume]) [Load, Resume] = run (init (Some 3)) [Load, Resume] \<and>
   api_loads (run (init (Some 3)) [Load, Resume, Load, Resume, Callback, Resume]) = [3]"
  by (simp add: init_def body_defs api_loads_def)

text \<open>
  C4, amended: a call of \<open>load()\<close> made while \<open>window.google\<close> exists appends no script
  element, whether it is dropped or not. When the call is not dropped (the slot is
  free), the execution it starts, once resumed and whatever further calls arrive in
  between, has still appended no script and has called \<open>api.load\<close> on the existing
  global for the \<open>corechart\<close> package, and now waits for the callback.
\<close>

theorem global_present_skips_injection:
  assumes "window_google s = Some g"
  shows "scripts (step s Load) = scripts s \<and>
    (loadTask s = Idle \<longrightarrow>
      (let s' = run s (Load # replicate n Load @ [Resume])
       in scripts s' = scripts s
        \<and> effects s' = effects s @
             [Performed, ApiLoad g ''visualization'' ''1.0'' [''corechart'']]
        \<and> loadTask s' = YieldCoreChart Pending))"
proof -
  have a: "scripts (step s Load) = scripts s"
    using assms by (simp add: body_defs scripts_def scripts_of_append)
  have b: "scripts (run s (Load # replicate n Load @ [Resume])) = scripts s
        \<and> effects (run s (Load # replicate n Load @ [Resume])) = effects s @
             [Performed, ApiLoad g ''visualization'' ''1.0'' [''corechart'']]
        \<and> loadTask (run s (Load # replicate n Load @ [Resume])) = YieldCoreChart Pending"
    if idle: "loadTask s = Idle"
  proof -
    from idle assms have "loadTask (load s) \<noteq> Idle"
      by (simp add: body_defs)
    then have "run s (Load # replicate n Load @ [Resume]) = resume (load s)"
      by (simp add: dropped_then_resume)
    moreover from idle assms have
      "effects (resume (load s)) = effects s @
             [Performed, ApiLoad g ''visualization'' ''1.0'' [''corechart'']]"
      "loadTask (resume (load s)) = YieldCoreChart Pending"
      by (simp_all add: body_defs)
    ultimately show ?thesis
      by (simp add: scripts_def scripts_of_append)
  qed
  from a b show ?thesis by (simp add: Let_def)
qed

theorem global_present_skips_injection_witness:
  "window_google (init (Some 3)) = Some 3 \<and>
   scripts (step (init (Some 3)) Load) = scripts (init (Some 3)) \<and>
   loadTask (init (Some 3)) = Idle \<and>
   (let s' = run (init (Some 3)) (Load # replicate 2 Load @ [Resume])
    in scripts s' = scripts (init (Some 3))
     \<and> effects s' = effects (init (Some 3)) @
          [Performed, ApiLoad 3 ''visualization'' ''1.0'' [''corechart'']]
     \<and> loadTask s' = YieldCoreChart Pending)"
proof -
  have h1: "window_google (init (Some 3)) = Some 3" and h2: "loadTask (init (Some 3)) = Idle"
    by (simp_all add: init_def)
  from global_present_skips_injection [OF h1, of 2] h1 h2 show ?thesis by blast
qed

text \<open>
  C5, as claimed: after any sequence of \<open>load()\<close> calls at most one script element has
  been injected. It fails when an injected script fails to load and \<open>load()\<close> is called
  again: the global is still absent, and the second execution injects a second element.
\<close>

theorem at_most_one_script_counterexample:
  "\<not> length (scripts (run (init None) [Load, ScriptError, Resume, Load])) \<le> 1"
  by (simp add: init_def body_defs scripts_def)

text \<open>
  C5, amended: over every sequence of events from the initial state in which no injected
  script fails to load and every script that loads leaves the global defined, at most
  one script element has been injected, however many calls of \<open>load()\<close> there are and
  however they overlap.
\<close>

theorem at_most_one_script_without_failure:
  "ScriptError \<notin> set evs \<Longrightarrow> ScriptLoad None \<notin> set evs
   \<Longrightarrow> length (scripts (run (init g) evs)) \<le> 1"
  using inject_inv_run [OF inject_inv_init, of evs g] by (simp add: inject_inv_def)

theorem at_most_one_script_without_failure_witness:
  "ScriptError \<notin> set [Load, Load, ScriptLoad (Some 7), Resume, Callback, Resume, Load] \<and>
   ScriptLoad None \<notin> set [Load, Load, ScriptLoad (Some 7), Resume, Callback, Resume, Load] \<and>
   length (scripts (run (init None)
     [Load, Load, ScriptLoad (Some 7), Resume, Callback, Resume, Load])) \<le> 1"
proof -
  have h1: "ScriptError \<notin> set [Load, Load, ScriptLoad (Some 7), Resume, Callback, Resume, Load]"
    and h2: "ScriptLoad None \<notin>
               set [Load, Load, ScriptLoad (Some 7), Resume, Callback, Resume, Load]"
    by simp_all
  from at_most_one_script_without_failure [OF h1 h2, of None] h1 h2 show ?thesis by blast
qed





text \<open>
  C8. \<open>loaded\<close> is false in the initial state; once true it is true after every further
  sequence of events, failed and repeated calls included; and the only step that turns
  it from false to true is the resumption of an execution whose second promise, the one
  of \<open>loadCoreChart\<close>, is fulfilled.
\<close>

theorem loaded_false_then_monotone:
  "\<not> loaded (init g) \<and>
   (loaded s \<longrightarrow> loaded (run s evs)) \<and>
   (\<not> loaded t \<and> loaded (step t e) \<longrightarrow> e = Resume \<and> loadTask t = YieldCoreChart (Fulfilled ()))"
proof -
  have "\<not> loaded (init g)" by (simp add: init_def)
  moreover have "loaded s \<longrightarrow> loaded (run s evs)" by (simp add: loaded_run)
  moreover have "\<not> loaded t \<and> loaded (step t e)
      \<longrightarrow> e = Resume \<and> loadTask t = YieldCoreChart (Fulfilled ())"
    unfolding loaded_step_iff by blast
  ultimately show ?thesis by blast
qed

theorem loaded_false_then_monotone_witness:
  "\<not> loaded (init None) \<and>
   loaded (run (init (Some 3)) [Load, Resume, Callback, Resume]) \<and>
   loaded (run (run (init (Some 3)) [Load, Resume, Callback, Resume])
             [Load, ScriptError, Resume, Load, ScriptLoad None, Resume, Resume]) \<and>
   \<not> loaded (run (init (Some 3)) [Load, Resume, Callback]) \<and>
   loaded (step (run (init (Some 3)) [Load, Resume, Callback]) Resume) \<and>
   loadTask (run (init (Some 3)) [Load, Resume, Callback]) = YieldCoreChart (Fulfilled ())"
proof -
  have h1: "loaded (run (init (Some 3)) [Load, Resume, Callback, Resume])"
    by (simp add: init_def body_defs)
  have h2: "\<not> loaded (run (init (Some 3)) [Load, Resume, Callback])"
    and h3: "loaded (step (run (init (Some 3)) [Load, Resume, Callback]) Resume)"
    by (simp_all add: init_def body_defs)
  from loaded_false_then_monotone [of None
      "run (init (Some 3)) [Load, Resume, Callback, Resume]"
      "[Load, ScriptError, Resume, Load, ScriptLoad None, Resume, Resume]"
      "run (init (Some 3)) [Load, Resume, Callback]" Resume] h1 h2 h3
  show ?thesis by blast
qed




text \<open>
  C10. No step removes a script element: the scripts after any sequence of events extend
  the scripts before it. In particular a script that failed to load stays, and since
  the global is then still absent every further call of \<open>load()\<close> that is followed by
  a failure appends one more: after \<open>n\<close> rounds of call, failure and resumption there
  are \<open>n\<close> more script elements, and the component is again idle with the global
  absent.
\<close>

theorem failed_scripts_accumulate:
  "(\<exists>ys. scripts (run s evs) = scripts s @ ys) \<and>
   (loadTask s = Idle \<and> window_google s = None \<longrightarrow>
     (let s' = run s (concat (replicate n [Load, ScriptError, Resume]))
      in scripts s' = scripts s @ replicate n jsapi_url
       \<and> loadTask s' = Idle \<and> window_google s' = None))"
proof -
  have "scripts (run s (concat (replicate n [Load, ScriptError, Resume])))
          = scripts s @ replicate n jsapi_url
       \<and> loadTask (run s (concat (replicate n [Load, ScriptError, Resume]))) = Idle
       \<and> window_google (run s (concat (replicate n [Load, ScriptError, Resume]))) = None"
    if "loadTask s = Idle" and "window_google s = None"
    unfolding failed_cycles [OF that] using that
    by (simp add: scripts_def scripts_of_append scripts_of_failed_cycles)
  with scripts_grow [of s evs] show ?thesis unfolding Let_def by blast
qed

theorem failed_scripts_accumulate_witness:
  "(\<exists>ys. scripts (run (init None) [Load, ScriptError, Resume, Load])
          = scripts (init None) @ ys) \<and>
   loadTask (init None) = Idle \<and> window_google (init None) = None \<and>
   (let s' = run (init None) (concat (replicate 3 [Load, ScriptError, Resume]))
    in scripts s' = scripts (init None) @ replicate 3 jsapi_url
     \<and> loadTask s' = Idle \<and> window_google s' = None)"
proof -
  have h1: "loadTask (init None) = Idle" and h2: "window_google (init None) = None"
    by (simp_all add: init_def)
  from failed_scripts_accumulate [of "init None" "[Load, ScriptError, Resume, Load]" 3] h1 h2
  show ?thesis by blast
qed

end
